theory Spec2Isabelle
  imports Main "HOL-Library.Word"
begin

section \<open>Strings of the host language\<close>

text \<open>
  A JavaScript string is a sequence of UTF-16 code units. The parser of
  \<^verbatim>\<open>src/main.ts\<close> only compares, slices and concatenates strings, so a string
  is modelled as the list of its code units, each a 16-bit word. \<open>js\<close> embeds an
  Isabelle literal (Latin-1 characters) as such a string.
\<close>

type_synonym jschar = "16 word"
type_synonym jsstring = "jschar list"

definition js :: "string \<Rightarrow> jsstring" where
  "js s = map of_char s"

abbreviation LF :: jschar where "LF \<equiv> 0x000A"
abbreviation CR :: jschar where "CR \<equiv> 0x000D"
abbreviation SP :: jschar where "SP \<equiv> 0x0020"
abbreviation HYPHEN :: jschar where "HYPHEN \<equiv> 0x002D"

text \<open>
  \<^verbatim>\<open>String.prototype.trim\<close> removes the code units of the ECMAScript productions
  WhiteSpace and LineTerminator from both ends: TAB, LF, VT, FF, CR, SP, NBSP, the
  other space separators of Unicode (U+1680, U+2000 to U+200A, U+202F, U+205F, U+3000),
  LS, PS and the byte order mark U+FEFF. All of them lie in the basic plane, so the
  test is one on a single code unit.
\<close>

definition isWhiteSpace :: "jschar \<Rightarrow> bool" where
  "isWhiteSpace c \<longleftrightarrow>
     c \<in> set [0x0009, 0x000A, 0x000B, 0x000C, 0x000D, 0x0020, 0x00A0, 0x1680,
               0x2028, 0x2029, 0x202F, 0x205F, 0x3000, 0xFEFF]
     \<or> (0x2000 \<le> c \<and> c \<le> 0x200A)"

definition trim :: "jsstring \<Rightarrow> jsstring" where
  "trim s = rev (dropWhile isWhiteSpace (rev (dropWhile isWhiteSpace s)))"

text \<open>\<^verbatim>\<open>s.startsWith(p)\<close>: \<open>p\<close> is a prefix of \<open>s\<close>.\<close>

definition startsWith :: "jsstring \<Rightarrow> jsstring \<Rightarrow> bool" where
  "startsWith s p \<longleftrightarrow> take (length p) s = p"

text \<open>
  \<^verbatim>\<open>s.replace(pat, rep)\<close> with a string pattern replaces the first occurrence of
  \<open>pat\<close> in \<open>s\<close>, and leaves \<open>s\<close> as it is when there is none. Every call of the
  source passes the empty string as \<open>rep\<close>, so the dollar patterns of replacement
  strings never arise.
\<close>

fun replace :: "jsstring \<Rightarrow> jsstring \<Rightarrow> jsstring \<Rightarrow> jsstring" where
  "replace pat rep [] = (if pat = [] then rep else [])"
| "replace pat rep (c # cs) =
     (if startsWith (c # cs) pat then rep @ drop (length pat) (c # cs)
      else c # replace pat rep cs)"

text \<open>\<^verbatim>\<open>s.substring(n)\<close>: the code units of \<open>s\<close> from index \<open>n\<close> on (empty beyond the end).\<close>

definition substring :: "jsstring \<Rightarrow> nat \<Rightarrow> jsstring" where
  "substring s n = drop n s"

text \<open>
  \<^verbatim>\<open>s.split(sep)\<close> for a separator of one code unit (the source splits on
  \<^verbatim>\<open>" "\<close> and on \<^verbatim>\<open>"-"\<close>): the pieces between all occurrences of the separator;
  the empty string gives one empty piece. The result is never the empty array; the
  branch for it below is there only because the case distinction must be total.
\<close>

fun splitOn :: "jschar \<Rightarrow> jsstring \<Rightarrow> jsstring list" where
  "splitOn sep [] = [[]]"
| "splitOn sep (c # cs) =
     (if c = sep then [] # splitOn sep cs
      else (case splitOn sep cs of
              [] \<Rightarrow> [[c]]
            | piece # pieces \<Rightarrow> (c # piece) # pieces))"

text \<open>
  \<^verbatim>\<open>input.split(/\r?\n/)\<close>: scanning from the left, a line ends at LF, or at CR
  directly followed by LF (both are consumed); a CR not followed by LF stays in its line.
\<close>

fun splitLines :: "jsstring \<Rightarrow> jsstring list" where
  "splitLines [] = [[]]"
| "splitLines [c] = (if c = LF then [[], []] else [[c]])"
| "splitLines (c # d # ds) =
     (if c = LF then [] # splitLines (d # ds)
      else if c = CR \<and> d = LF then [] # splitLines ds
      else (case splitLines (d # ds) of
              [] \<Rightarrow> [[c]]
            | l # ls \<Rightarrow> (c # l) # ls))"

text \<open>\<^verbatim>\<open>xs[i]\<close> on an array: \<^verbatim>\<open>undefined\<close> (here \<open>None\<close>) beyond its length.\<close>

definition at_index :: "'a list \<Rightarrow> nat \<Rightarrow> 'a option" where
  "at_index xs i = (if i < length xs then Some (xs ! i) else None)"

section \<open>The data model of the parser\<close>

text \<open>
  \<^verbatim>\<open>Highlight\<close> and \<^verbatim>\<open>ArrowAnnotation\<close> are the two variants of the union tagged
  by the field \<^verbatim>\<open>type\<close>. The interface declares the fields of an arrow as strings,
  but they are filled by the destructuring \<^verbatim>\<open>let [start, end] = ...\<close>, which leaves
  a variable \<^verbatim>\<open>undefined\<close> when the array is too short: hence the options.
\<close>

datatype annotation =
    Highlight (square: jsstring)
  | Arrow (arrow_start: "jsstring option") (arrow_end: "jsstring option")

record ParsedChessCode =
  fen :: jsstring
  annotations :: "annotation list"
  orientation :: jsstring

text \<open>
  \<open>Error msg\<close> is the \<^verbatim>\<open>Error\<close> thrown by \<^verbatim>\<open>parseCode\<close>, with its message.
  \<open>TypeError\<close> is what calling \<^verbatim>\<open>startsWith\<close> on \<^verbatim>\<open>lines[0]\<close> would raise
  were the array of lines empty.
\<close>

datatype error = Error jsstring | TypeError

section \<open>parseCode\<close>

text \<open>
  The inner loop \<^verbatim>\<open>for (let annotation of partial_annotations)\<close>; \<open>anns\<close> is the
  array \<^verbatim>\<open>annotations\<close>, to which \<^verbatim>\<open>push\<close> appends.
\<close>

fun annotationLoop :: "jsstring list \<Rightarrow> annotation list \<Rightarrow> annotation list" where
  "annotationLoop [] anns = anns"
| "annotationLoop (annotation # rest) anns =
     (if startsWith annotation (js ''H'') then
        annotationLoop rest (anns @ [Highlight (substring annotation 1)])
      else if startsWith annotation (js ''A'') then
        (let parts = splitOn HYPHEN (substring annotation 1) in
         annotationLoop rest (anns @ [Arrow (at_index parts 0) (at_index parts 1)]))
      else annotationLoop rest anns)"

text \<open>
  The body of the outer loop \<^verbatim>\<open>for (let line of lines.splice(1))\<close>, on the state
  \<open>(anns, ori)\<close> of the variables \<^verbatim>\<open>annotations\<close> and \<^verbatim>\<open>orientation\<close>. The
  orientation branch assigns to \<^verbatim>\<open>line\<close>, and the test for the annotations prefix
  that follows reads the assigned value (\<open>line2\<close>). The message of the error
  interpolates the variable \<^verbatim>\<open>orientation\<close>.
\<close>

fun lineBody ::
  "jsstring \<Rightarrow> annotation list \<times> jsstring \<Rightarrow> error + annotation list \<times> jsstring" where
  "lineBody line (anns, ori) =
     (if trim line = [] then Inr (anns, ori)
      else
        (case (if startsWith line (js ''orientation: '') then
                 (let line1 = trim (replace (js ''orientation: '') [] line) in
                  if line1 \<noteq> js ''white'' \<and> line1 \<noteq> js ''black''
                  then Inl (Error (js ''Unknown orientation '' @ ori))
                  else Inr (line1, line1))
               else Inr (line, ori)) of
           Inl e \<Rightarrow> Inl e
         | Inr (line2, ori2) \<Rightarrow>
             if startsWith line2 (js ''annotations: '') then
               Inr (annotationLoop
                      (splitOn SP (replace (js ''annotations: '') [] line2)) anns, ori2)
             else Inr (anns, ori2)))"

fun linesLoop ::
  "jsstring list \<Rightarrow> annotation list \<times> jsstring \<Rightarrow> error + annotation list \<times> jsstring" where
  "linesLoop [] st = Inr st"
| "linesLoop (line # rest) st =
     (case lineBody line st of
        Inl e \<Rightarrow> Inl e
      | Inr st' \<Rightarrow> linesLoop rest st')"

definition parseCode :: "jsstring \<Rightarrow> error + ParsedChessCode" where
  "parseCode input =
     (case splitLines input of
        [] \<Rightarrow> Inl TypeError
      | line0 # rest \<Rightarrow>
          (let fen1 = (if startsWith line0 (js ''fen: '')
                       then replace (js ''fen: '') [] line0 else line0) in
           case linesLoop rest ([], js ''white'') of
             Inl e \<Rightarrow> Inl e
           | Inr (anns, ori) \<Rightarrow>
               Inr \<lparr>fen = fen1, annotations = anns, orientation = ori\<rparr>))"

section \<open>Settings\<close>

text \<open>
  \<^verbatim>\<open>ObsidianChessSettings\<close> has the three fields declared in this file and, through
  the options of the board it extends, the field \<^verbatim>\<open>orientation\<close> that the render
  handler writes; an object without it is modelled by \<open>None\<close>. \<^verbatim>\<open>boardWidthPx\<close> is
  a JavaScript number; only the literal 320 matters below.
\<close>

record ObsidianChessSettings =
  whiteSquareColor :: jsstring
  blackSquareColor :: jsstring
  boardWidthPx :: int
  setting_orientation :: "jsstring option"

text \<open>
  \<^verbatim>\<open>onload\<close> assigns \<^verbatim>\<open>this.setting = (await this.loadData()) || {...}\<close>. The
  argument is what \<^verbatim>\<open>loadData\<close> resolves to: \<open>None\<close> when nothing was persisted
  (\<^verbatim>\<open>null\<close>, which is falsy), \<open>Some stored\<close> for a stored settings object (an
  object is truthy). The result is the value assigned to \<^verbatim>\<open>this.setting\<close>.
\<close>

definition onload :: "ObsidianChessSettings option \<Rightarrow> ObsidianChessSettings" where
  "onload loadData =
     (case loadData of
        Some stored \<Rightarrow> stored
      | None \<Rightarrow>
          \<lparr>whiteSquareColor = js ''#f0d9b5'', blackSquareColor = js ''#b58862'',
           boardWidthPx = 320, setting_orientation = None\<rparr>)"

section \<open>The specification's vocabulary\<close>

text \<open>
  The definitions of this section follow the words of the specification, not the code;
  the theorems below relate them to \<open>parseCode\<close>.
\<close>

text \<open>The value of an orientation line: the prefix (13 code units) stripped, then trimmed.\<close>

definition orientationValue :: "jsstring \<Rightarrow> jsstring" where
  "orientationValue line = trim (drop 13 line)"

text \<open>An orientation line whose value is neither \<^verbatim>\<open>white\<close> nor \<^verbatim>\<open>black\<close>.\<close>

definition invalidOrientation :: "jsstring \<Rightarrow> bool" where
  "invalidOrientation line \<longleftrightarrow>
     startsWith line (js ''orientation: '')
     \<and> orientationValue line \<noteq> js ''white'' \<and> orientationValue line \<noteq> js ''black''"

text \<open>
  The orientation in force after the directive lines \<open>ls\<close>, starting from \<open>ori\<close>:
  the value of the last orientation line, or \<open>ori\<close> when there is none.
\<close>

definition orientationAfter :: "jsstring \<Rightarrow> jsstring list \<Rightarrow> jsstring" where
  "orientationAfter ori ls =
     (case rev (filter (\<lambda>l. startsWith l (js ''orientation: '')) ls) of
        [] \<Rightarrow> ori
      | l # _ \<Rightarrow> orientationValue l)"

text \<open>The position line with its optional prefix \<^verbatim>\<open>fen: \<close> (5 code units) removed.\<close>

definition fenOf :: "jsstring \<Rightarrow> jsstring" where
  "fenOf line0 = (if startsWith line0 (js ''fen: '') then drop 5 line0 else line0)"

text \<open>A line as the line splitter returns it: without the CR of a closing CR LF.\<close>

definition stripCR :: "jsstring \<Rightarrow> jsstring" where
  "stripCR s = (if s \<noteq> [] \<and> last s = CR then butlast s else s)"

text \<open>The text before, and the whole text after, the first occurrence of a separator.\<close>

definition beforeFirst :: "jschar \<Rightarrow> jsstring \<Rightarrow> jsstring" where
  "beforeFirst sep s = takeWhile (\<lambda>c. c \<noteq> sep) s"

definition afterFirst :: "jschar \<Rightarrow> jsstring \<Rightarrow> jsstring" where
  "afterFirst sep s = drop 1 (dropWhile (\<lambda>c. c \<noteq> sep) s)"

text \<open>
  The end of an arrow whose token is \<^verbatim>\<open>A\<close> followed by \<open>body\<close>: absent when \<open>body\<close>
  has no hyphen, else the text between its first hyphen and its second one (or its end).
\<close>

definition arrowEnd :: "jsstring \<Rightarrow> jsstring option" where
  "arrowEnd body =
     (if HYPHEN \<in> set body then Some (beforeFirst HYPHEN (afterFirst HYPHEN body)) else None)"

text \<open>The annotations (none or one) that a token stands for.\<close>

definition tokenAnnotation :: "jsstring \<Rightarrow> annotation list" where
  "tokenAnnotation tok =
     (if startsWith tok (js ''H'') then [Highlight (drop 1 tok)]
      else if startsWith tok (js ''A'') then
        [Arrow (Some (beforeFirst HYPHEN (drop 1 tok))) (arrowEnd (drop 1 tok))]
      else [])"

text \<open>
  The annotations of a directive line: those of its tokens, from left to right, when it
  is an annotations line, and none otherwise.
\<close>

definition lineAnnotations :: "jsstring \<Rightarrow> annotation list" where
  "lineAnnotations line =
     (if startsWith line (js ''annotations: '')
      then concat (map tokenAnnotation (splitOn SP (drop 13 line))) else [])"

text \<open>\<open>includesText s t\<close>: the text \<open>t\<close> occurs in \<open>s\<close>.\<close>

fun includesText :: "jsstring \<Rightarrow> jsstring \<Rightarrow> bool" where
  "includesText [] t \<longleftrightarrow> t = []"
| "includesText (c # cs) t \<longleftrightarrow> startsWith (c # cs) t \<or> includesText cs t"

section \<open>Strings and arrays: basic facts\<close>

lemma splitOn_not_Nil: "splitOn sep s \<noteq> []"
  by (induction s) (auto split: list.splits)

lemma splitLines_not_Nil: "splitLines s \<noteq> []"
  by (induction s rule: splitLines.induct) (auto split: list.splits)

lemma splitOn_unfold:
  "splitOn sep s =
     takeWhile (\<lambda>c. c \<noteq> sep) s #
       (case dropWhile (\<lambda>c. c \<noteq> sep) s of [] \<Rightarrow> [] | _ # r \<Rightarrow> splitOn sep r)"
  by (induction s) (auto split: list.splits)

lemma dropWhile_neq_Nil_iff: "dropWhile (\<lambda>c. c \<noteq> sep) s = [] \<longleftrightarrow> sep \<notin> set s"
  by (induction s) auto

lemma at_index_splitOn_0: "at_index (splitOn sep s) 0 = Some (beforeFirst sep s)"
  by (subst splitOn_unfold) (simp add: at_index_def beforeFirst_def)

lemma at_index_splitOn_1:
  "at_index (splitOn sep s) (Suc 0) =
     (if sep \<in> set s then Some (beforeFirst sep (afterFirst sep s)) else None)"
proof (cases "dropWhile (\<lambda>c. c \<noteq> sep) s")
  case Nil
  then have "sep \<notin> set s" by auto
  moreover have "splitOn sep s = [takeWhile (\<lambda>c. c \<noteq> sep) s]"
    by (subst splitOn_unfold) (simp add: Nil)
  ultimately show ?thesis by (simp add: at_index_def)
next
  case (Cons d r)
  then have in_s: "sep \<in> set s" using dropWhile_neq_Nil_iff [of sep s] by auto
  have "splitOn sep s = takeWhile (\<lambda>c. c \<noteq> sep) s # splitOn sep r"
    by (subst splitOn_unfold) (simp add: Cons)
  moreover have "hd (splitOn sep r) = takeWhile (\<lambda>c. c \<noteq> sep) r"
    by (subst splitOn_unfold) simp
  ultimately have "at_index (splitOn sep s) (Suc 0) = Some (takeWhile (\<lambda>c. c \<noteq> sep) r)"
    using splitOn_not_Nil [of sep r] by (cases "splitOn sep r") (simp_all add: at_index_def)
  then show ?thesis using in_s by (simp add: beforeFirst_def afterFirst_def Cons)
qed

lemma annotationLoop_tokens:
  "annotationLoop toks anns = anns @ concat (map tokenAnnotation toks)"
  by (induction toks arbitrary: anns)
     (simp_all add: tokenAnnotation_def substring_def Let_def arrowEnd_def
        at_index_splitOn_0 at_index_splitOn_1)

lemma startsWith_replace:
  "startsWith s p \<Longrightarrow> replace p [] s = drop (length p) s"
  by (cases s) (auto simp: startsWith_def)

lemma startsWith_Cons_trim:
  "startsWith s (c # p) \<Longrightarrow> \<not> isWhiteSpace c \<Longrightarrow> trim s \<noteq> []"
  by (cases s) (auto simp: startsWith_def trim_def)

lemma len_orientation [simp]: "length (js ''orientation: '') = 13"
  by (simp add: js_def)

lemma len_annotations [simp]: "length (js ''annotations: '') = 13"
  by (simp add: js_def)

lemma orientation_line_not_blank:
  "startsWith s (js ''orientation: '') \<Longrightarrow> trim s \<noteq> []"
  by (rule startsWith_Cons_trim [where c = "0x6F" and p = "js ''rientation: ''"])
     (simp_all add: js_def isWhiteSpace_def)

lemma annotations_line_not_blank:
  "startsWith s (js ''annotations: '') \<Longrightarrow> trim s \<noteq> []"
  by (rule startsWith_Cons_trim [where c = "0x61" and p = "js ''nnotations: ''"])
     (simp_all add: js_def isWhiteSpace_def)

lemma prefixes_exclusive:
  "startsWith s (js ''orientation: '') \<Longrightarrow> \<not> startsWith s (js ''annotations: '')"
  by (cases s) (auto simp: startsWith_def js_def)

lemma white_black_not_annotations:
  "\<not> startsWith (js ''white'') (js ''annotations: '')"
  "\<not> startsWith (js ''black'') (js ''annotations: '')"
  by (simp_all add: startsWith_def js_def)

lemma lineBody_blank: "trim line = [] \<Longrightarrow> lineBody line st = Inr st"
  by (cases st) simp

lemma lineBody_invalid:
  "invalidOrientation line \<Longrightarrow>
     lineBody line (anns, ori) = Inl (Error (js ''Unknown orientation '' @ ori))"
  by (simp add: invalidOrientation_def orientationValue_def orientation_line_not_blank
        startsWith_replace)

lemma lineBody_valid:
  "startsWith line (js ''orientation: '') \<Longrightarrow> \<not> invalidOrientation line \<Longrightarrow>
     lineBody line (anns, ori) = Inr (anns, orientationValue line)"
  using white_black_not_annotations
  by (auto simp: invalidOrientation_def orientationValue_def orientation_line_not_blank
        startsWith_replace Let_def)

lemma lineBody_annotations:
  "startsWith line (js ''annotations: '') \<Longrightarrow>
     lineBody line (anns, ori) = Inr (anns @ lineAnnotations line, ori)"
  using prefixes_exclusive [of line]
  by (auto simp: annotations_line_not_blank startsWith_replace lineAnnotations_def
        annotationLoop_tokens)

lemma lineBody_other:
  "\<not> startsWith line (js ''orientation: '') \<Longrightarrow> \<not> startsWith line (js ''annotations: '') \<Longrightarrow>
     lineBody line st = Inr st"
  by (cases st) simp


section \<open>The two loops\<close>

declare lineBody.simps [simp del]

lemma len_fen [simp]: "length (js ''fen: '') = 5"
  by (simp add: js_def)

lemma lineBody_not_invalid:
  "\<not> invalidOrientation line \<Longrightarrow>
     lineBody line (anns, ori) =
       Inr (anns @ lineAnnotations line,
            if startsWith line (js ''orientation: '') then orientationValue line else ori)"
proof (cases "startsWith line (js ''orientation: '')")
  case True
  assume "\<not> invalidOrientation line"
  with True show ?thesis
    using prefixes_exclusive [of line]
    by (simp add: lineBody_valid lineAnnotations_def)
next
  case False
  then show ?thesis
    by (cases "startsWith line (js ''annotations: '')")
       (simp_all add: lineBody_annotations lineBody_other lineAnnotations_def)
qed

lemma orientationAfter_Nil: "orientationAfter ori [] = ori"
  by (simp add: orientationAfter_def)

lemma orientationAfter_Cons:
  "orientationAfter ori (l # ls) =
     orientationAfter (if startsWith l (js ''orientation: '') then orientationValue l else ori) ls"
  by (simp add: orientationAfter_def split: list.splits)

lemma linesLoop_append:
  "linesLoop (xs @ ys) st =
     (case linesLoop xs st of Inl e \<Rightarrow> Inl e | Inr st' \<Rightarrow> linesLoop ys st')"
  by (induction xs arbitrary: st) (simp_all split: sum.splits)

lemma linesLoop_no_invalid:
  "\<forall>l \<in> set ls. \<not> invalidOrientation l \<Longrightarrow>
     linesLoop ls (anns, ori) =
       Inr (anns @ concat (map lineAnnotations ls), orientationAfter ori ls)"
proof (induction ls arbitrary: anns ori)
  case Nil
  show ?case by (simp add: orientationAfter_Nil)
next
  case (Cons l ls)
  then show ?case
    by (simp add: lineBody_not_invalid orientationAfter_Cons)
qed

lemma linesLoop_invalid:
  "\<exists>l \<in> set ls. invalidOrientation l \<Longrightarrow> \<exists>e. linesLoop ls st = Inl e"
proof (induction ls arbitrary: st)
  case Nil
  then show ?case by simp
next
  case (Cons l ls)
  obtain anns ori where st: "st = (anns, ori)" by (cases st)
  show ?case
  proof (cases "invalidOrientation l")
    case True
    then show ?thesis by (simp add: st lineBody_invalid)
  next
    case False
    with Cons.prems have "\<exists>l \<in> set ls. invalidOrientation l" by simp
    from Cons.IH [OF this] False show ?thesis
      by (simp add: st lineBody_not_invalid)
  qed
qed

lemma linesLoop_error_iff:
  "(\<exists>e. linesLoop ls st = Inl e) \<longleftrightarrow> (\<exists>l \<in> set ls. invalidOrientation l)"
proof
  assume err: "\<exists>e. linesLoop ls st = Inl e"
  show "\<exists>l \<in> set ls. invalidOrientation l"
  proof (rule ccontr)
    assume "\<not> (\<exists>l \<in> set ls. invalidOrientation l)"
    then have "\<forall>l \<in> set ls. \<not> invalidOrientation l" by simp
    from linesLoop_no_invalid [OF this, of "fst st" "snd st"] err
    show False by simp
  qed
next
  assume "\<exists>l \<in> set ls. invalidOrientation l"
  then show "\<exists>e. linesLoop ls st = Inl e" by (rule linesLoop_invalid)
qed

lemma fen_replace: "startsWith line0 (js ''fen: '') \<Longrightarrow> replace (js ''fen: '') [] line0 = drop 5 line0"
  using startsWith_replace [of line0 "js ''fen: ''"] by simp

lemma parseCode_lines:
  "splitLines input = line0 # rest \<Longrightarrow>
     parseCode input =
       (case linesLoop rest ([], js ''white'') of
          Inl e \<Rightarrow> Inl e
        | Inr (anns, ori) \<Rightarrow> Inr \<lparr>fen = fenOf line0, annotations = anns, orientation = ori\<rparr>)"
  by (simp add: parseCode_def fenOf_def fen_replace split: sum.splits)

lemma parseCode_no_invalid:
  "splitLines input = line0 # rest \<Longrightarrow> \<forall>l \<in> set rest. \<not> invalidOrientation l \<Longrightarrow>
     parseCode input =
       Inr \<lparr>fen = fenOf line0, annotations = concat (map lineAnnotations rest),
            orientation = orientationAfter (js ''white'') rest\<rparr>"
  by (simp add: parseCode_lines linesLoop_no_invalid)

lemma parseCode_error_iff_lines:
  "splitLines input = line0 # rest \<Longrightarrow>
     (\<exists>e. parseCode input = Inl e) \<longleftrightarrow> (\<exists>l \<in> set rest. invalidOrientation l)"
  using linesLoop_error_iff [of rest "([], js ''white'')"]
  by (auto simp: parseCode_lines split: sum.splits)

lemma splitLines_LF_Cons: "splitLines (LF # b) = [] # splitLines b"
  by (cases b) simp_all

lemma splitLines_no_LF: "LF \<notin> set s \<Longrightarrow> splitLines s = [s]"
  by (induction s rule: splitLines.induct) auto

lemma splitLines_LF:
  "LF \<notin> set a \<Longrightarrow> splitLines (a @ LF # b) = stripCR a # splitLines b"
proof (induction a rule: splitLines.induct)
  case 1
  show ?case by (simp add: splitLines_LF_Cons stripCR_def)
next
  case (2 c)
  then show ?case by (simp add: splitLines_LF_Cons stripCR_def)
next
  case (3 c d ds)
  then show ?case by (simp add: stripCR_def)
qed

lemma linesLoop_error_message:
  "linesLoop ls (anns, ori) = Inl e \<Longrightarrow>
     e = Error (js ''Unknown orientation '' @ ori)
     \<or> e = Error (js ''Unknown orientation white'')
     \<or> e = Error (js ''Unknown orientation black'')"
proof (induction ls arbitrary: anns ori)
  case Nil
  then show ?case by simp
next
  case (Cons l ls)
  show ?case
  proof (cases "invalidOrientation l")
    case True
    with Cons.prems show ?thesis by (simp add: lineBody_invalid)
  next
    case False
    show ?thesis
    proof (cases "startsWith l (js ''orientation: '')")
      case True
      with False have "orientationValue l = js ''white'' \<or> orientationValue l = js ''black''"
        by (auto simp: invalidOrientation_def)
      with Cons.prems False True Cons.IH [of "anns @ lineAnnotations l" "orientationValue l" ]
      show ?thesis by (auto simp: lineBody_not_invalid js_def)
    next
      case False
      with Cons.prems \<open>\<not> invalidOrientation l\<close> Cons.IH [of "anns @ lineAnnotations l" ori]
      show ?thesis by (simp add: lineBody_not_invalid)
    qed
  qed
qed

section \<open>Facts about whole inputs\<close>

lemma splitLines_obtain: "\<exists>line0 rest. splitLines input = line0 # rest"
  using splitLines_not_Nil [of input] by (cases "splitLines input") auto

lemma annotationLoop_append:
  "annotationLoop (ts1 @ ts2) anns = annotationLoop ts2 (annotationLoop ts1 anns)"
  by (simp add: annotationLoop_tokens)

lemma tokenAnnotation_other:
  "\<not> startsWith tok (js ''H'') \<Longrightarrow> \<not> startsWith tok (js ''A'') \<Longrightarrow> tokenAnnotation tok = []"
  by (simp add: tokenAnnotation_def)

lemma lineBody_ignored:
  "\<not> startsWith line (js ''orientation: '') \<Longrightarrow> \<not> startsWith line (js ''annotations: '') \<Longrightarrow>
     linesLoop (pre @ line # post) st = linesLoop (pre @ post) st"
  by (simp add: linesLoop_append lineBody_other split: sum.splits)

lemma parseCode_error_message:
  "parseCode input = Inl e \<Longrightarrow>
     e = Error (js ''Unknown orientation white'') \<or> e = Error (js ''Unknown orientation black'')"
proof -
  assume err: "parseCode input = Inl e"
  obtain line0 rest where sl: "splitLines input = line0 # rest"
    using splitLines_not_Nil [of input] by (cases "splitLines input") auto
  from err have "linesLoop rest ([], js ''white'') = Inl e"
    by (auto simp: parseCode_lines [OF sl] split: sum.splits)
  from linesLoop_error_message [OF this] show ?thesis by (auto simp: js_def)
qed

lemma beforeFirst_no_sep: "sep \<notin> set s \<Longrightarrow> beforeFirst sep s = s"
  by (auto simp: beforeFirst_def takeWhile_eq_all_conv)

lemma splitOn_no_sep: "sep \<notin> set s \<Longrightarrow> splitOn sep s = [s]"
  by (induction s) auto

lemma the_line_annotations:
  "lineAnnotations (js ''annotations: He4 Ae2-e4 Xz9'')
     = [Highlight (js ''e4''), Arrow (Some (js ''e2'')) (Some (js ''e4''))]"
  by (simp add: lineAnnotations_def tokenAnnotation_def arrowEnd_def beforeFirst_def
        afterFirst_def startsWith_def js_def)

lemma the_line_startsWith:
  "startsWith (js ''annotations: He4 Ae2-e4 Xz9'') (js ''annotations: '')"
  by (simp add: startsWith_def js_def)

lemma the_line_not_invalid: "\<not> invalidOrientation (js ''annotations: He4 Ae2-e4 Xz9'')"
  by (simp add: invalidOrientation_def startsWith_def js_def)

lemma parseCode_single_line:
  "LF \<notin> set line0 \<Longrightarrow>
     parseCode line0 = Inr \<lparr>fen = fenOf line0, annotations = [], orientation = js ''white''\<rparr>"
  using parseCode_no_invalid [of line0 line0 "[]"]
  by (simp add: splitLines_no_LF orientationAfter_Nil)

lemma parseCode_fen:
  "splitLines input = line0 # rest \<Longrightarrow> parseCode input = Inr r \<Longrightarrow> fen r = fenOf line0"
  by (auto simp: parseCode_lines split: sum.splits)

lemma parseCode_directives_only:
  "drop 1 (splitLines a) = drop 1 (splitLines b) \<Longrightarrow>
     map_sum id (\<lambda>r. (annotations r, orientation r)) (parseCode a)
       = map_sum id (\<lambda>r. (annotations r, orientation r)) (parseCode b)"
proof -
  assume same: "drop 1 (splitLines a) = drop 1 (splitLines b)"
  obtain la ra where sa: "splitLines a = la # ra" using splitLines_obtain by blast
  obtain lb rb where sb: "splitLines b = lb # rb" using splitLines_obtain by blast
  from same sa sb have "ra = rb" by simp
  then show ?thesis
    by (simp add: parseCode_lines [OF sa] parseCode_lines [OF sb] split: sum.splits)
qed

lemma orientationAfter_no_line:
  "\<forall>l \<in> set ls. \<not> startsWith l (js ''orientation: '') \<Longrightarrow> orientationAfter ori ls = ori"
  by (induction ls arbitrary: ori) (simp_all add: orientationAfter_Nil orientationAfter_Cons)

lemma orientationAfter_append:
  "orientationAfter ori (xs @ ys) = orientationAfter (orientationAfter ori xs) ys"
  by (induction xs arbitrary: ori) (simp_all add: orientationAfter_Nil orientationAfter_Cons)

lemma orientationAfter_last:
  "startsWith l (js ''orientation: '') \<Longrightarrow>
   \<forall>l' \<in> set post. \<not> startsWith l' (js ''orientation: '') \<Longrightarrow>
     orientationAfter ori (pre @ l # post) = orientationValue l"
  by (simp add: orientationAfter_append orientationAfter_Cons orientationAfter_no_line)

lemma not_orientation_not_invalid:
  "\<not> startsWith l (js ''orientation: '') \<Longrightarrow> \<not> invalidOrientation l"
  by (simp add: invalidOrientation_def)

lemma parseCode_annotations:
  "parseCode input = Inr r \<Longrightarrow>
     annotations r = concat (map lineAnnotations (drop 1 (splitLines input)))"
proof -
  assume ok: "parseCode input = Inr r"
  obtain line0 rest where sl: "splitLines input = line0 # rest"
    using splitLines_obtain by blast
  have valid: "\<forall>l \<in> set rest. \<not> invalidOrientation l"
  proof (rule ccontr)
    assume "\<not> (\<forall>l \<in> set rest. \<not> invalidOrientation l)"
    then have "\<exists>l \<in> set rest. invalidOrientation l" by blast
    with parseCode_error_iff_lines [OF sl] ok show False by simp
  qed
  from parseCode_no_invalid [OF sl valid] ok show ?thesis by (auto simp: sl)
qed

lemma lineAnnotations_prefixed:
  "lineAnnotations (js ''annotations: '' @ rest) = concat (map tokenAnnotation (splitOn SP rest))"
  by (simp add: lineAnnotations_def startsWith_def)

lemma length_tokenAnnotation: "length (tokenAnnotation tok) \<le> 1"
  by (simp add: tokenAnnotation_def)

section \<open>The claims\<close>

text \<open>
  C1. An orientation line whose value is neither \<^verbatim>\<open>white\<close> nor \<^verbatim>\<open>black\<close> makes
  \<open>parseCode\<close> fail with an "unknown orientation" error whose message includes the
  offending text. The failure holds (see C2); the message does not include the text: it
  interpolates the variable \<^verbatim>\<open>orientation\<close>, which still holds the last valid value.
  On the input below, whose orientation value is \<^verbatim>\<open>purple\<close>, the message is
  \<^verbatim>\<open>Unknown orientation white\<close>, in which \<^verbatim>\<open>purple\<close> does not occur.
\<close>

theorem unknown_orientation_message_purple:
  "parseCode (js ''8/8/8/8/8/8/8/8\<newline>orientation: purple'')
     = Inl (Error (js ''Unknown orientation white''))
   \<and> orientationValue (js ''orientation: purple'') = js ''purple''
   \<and> \<not> includesText (js ''Unknown orientation white'') (js ''purple'')"
  by (simp add: parseCode_def lineBody.simps orientationValue_def js_def startsWith_def
        trim_def isWhiteSpace_def)

text \<open>
  C2. \<open>parseCode\<close> raises an error if and only if some line after the first is an
  orientation line with an invalid value, and returns a result for every other input. A
  token that starts neither with \<^verbatim>\<open>H\<close> nor with \<^verbatim>\<open>A\<close> leaves the annotations as
  they are, and a line that starts with neither directive prefix leaves the state of the
  loop as it is: the parse goes on as if the token, or the line, were not there.
\<close>

theorem parseCode_raises_iff:
  "((\<exists>e. parseCode input = Inl e) \<longleftrightarrow>
      (\<exists>l \<in> set (drop 1 (splitLines input)). invalidOrientation l))
   \<and> ((\<forall>l \<in> set (drop 1 (splitLines input)). \<not> invalidOrientation l) \<longrightarrow>
        (\<exists>r. parseCode input = Inr r))
   \<and> (\<not> startsWith tok (js ''H'') \<and> \<not> startsWith tok (js ''A'') \<longrightarrow>
        annotationLoop (ts1 @ tok # ts2) anns = annotationLoop (ts1 @ ts2) anns)
   \<and> (\<not> startsWith line (js ''orientation: '') \<and> \<not> startsWith line (js ''annotations: '') \<longrightarrow>
        lineBody line st = Inr st
        \<and> linesLoop (pre @ line # post) st = linesLoop (pre @ post) st)"
proof -
  obtain line0 rest where sl: "splitLines input = line0 # rest"
    using splitLines_obtain by blast
  have iff: "(\<exists>e. parseCode input = Inl e) \<longleftrightarrow>
      (\<exists>l \<in> set (drop 1 (splitLines input)). invalidOrientation l)"
    using parseCode_error_iff_lines [OF sl] by (simp add: sl)
  have ok: "(\<forall>l \<in> set (drop 1 (splitLines input)). \<not> invalidOrientation l) \<longrightarrow>
        (\<exists>r. parseCode input = Inr r)"
    using parseCode_no_invalid [OF sl] by (simp add: sl)
  have tok: "\<not> startsWith tok (js ''H'') \<and> \<not> startsWith tok (js ''A'') \<longrightarrow>
        annotationLoop (ts1 @ tok # ts2) anns = annotationLoop (ts1 @ ts2) anns"
    by (simp add: annotationLoop_tokens tokenAnnotation_other)
  have ln: "\<not> startsWith line (js ''orientation: '') \<and> \<not> startsWith line (js ''annotations: '') \<longrightarrow>
        lineBody line st = Inr st
        \<and> linesLoop (pre @ line # post) st = linesLoop (pre @ post) st"
    by (simp add: lineBody_other lineBody_ignored)
  from iff ok tok ln show ?thesis by blast
qed

theorem parseCode_raises_iff_witness:
  "(\<exists>e. parseCode (js ''8/8\<newline>orientation: purple'') = Inl e)
   \<and> (\<exists>r. parseCode (js ''8/8\<newline>a note\<newline>annotations: Xz9 He4'') = Inr r)
   \<and> annotationLoop ([] @ js ''Xz9'' # [js ''He4'']) [] = annotationLoop ([] @ [js ''He4'']) []
   \<and> lineBody (js ''a note'') ([], js ''white'') = Inr ([], js ''white'')
   \<and> linesLoop ([] @ js ''a note'' # [js ''annotations: Xz9 He4'']) ([], js ''white'')
       = linesLoop ([] @ [js ''annotations: Xz9 He4'']) ([], js ''white'')"
proof -
  have bad: "\<exists>l \<in> set (drop 1 (splitLines (js ''8/8\<newline>orientation: purple''))). invalidOrientation l"
    by (simp add: js_def invalidOrientation_def orientationValue_def startsWith_def trim_def
          isWhiteSpace_def)
  have good: "\<forall>l \<in> set (drop 1 (splitLines (js ''8/8\<newline>a note\<newline>annotations: Xz9 He4''))).
                \<not> invalidOrientation l"
    by (simp add: js_def invalidOrientation_def startsWith_def)
  have tok: "\<not> startsWith (js ''Xz9'') (js ''H'') \<and> \<not> startsWith (js ''Xz9'') (js ''A'')"
    by (simp add: js_def startsWith_def)
  have ln: "\<not> startsWith (js ''a note'') (js ''orientation: '')
            \<and> \<not> startsWith (js ''a note'') (js ''annotations: '')"
    by (simp add: js_def startsWith_def)
  from bad
    parseCode_raises_iff [of "js ''8/8\<newline>orientation: purple''" "js ''Xz9''" "[]" "[js ''He4'']" "[]"
      "js ''a note''" "([], js ''white'')" "[]" "[js ''annotations: Xz9 He4'']"]
  have 1: "\<exists>e. parseCode (js ''8/8\<newline>orientation: purple'') = Inl e" by blast
  from good tok ln
    parseCode_raises_iff [of "js ''8/8\<newline>a note\<newline>annotations: Xz9 He4''" "js ''Xz9''" "[]"
      "[js ''He4'']" "[]" "js ''a note''" "([], js ''white'')" "[]" "[js ''annotations: Xz9 He4'']"]
  have 2: "(\<exists>r. parseCode (js ''8/8\<newline>a note\<newline>annotations: Xz9 He4'') = Inr r)
   \<and> annotationLoop ([] @ js ''Xz9'' # [js ''He4'']) [] = annotationLoop ([] @ [js ''He4'']) []
   \<and> lineBody (js ''a note'') ([], js ''white'') = Inr ([], js ''white'')
   \<and> linesLoop ([] @ js ''a note'' # [js ''annotations: Xz9 He4'']) ([], js ''white'')
       = linesLoop ([] @ [js ''annotations: Xz9 He4'']) ([], js ''white'')" by blast
  from 1 2 show ?thesis by blast
qed

text \<open>
  C3 (as amended). On an annotations line the remainder after the prefix is split on
  single spaces and the tokens are taken from left to right. A token starting with
  \<^verbatim>\<open>H\<close> yields a Highlight whose square is everything after the \<^verbatim>\<open>H\<close>. A token
  starting with \<^verbatim>\<open>A\<close> yields an Arrow whose start is the text after the \<^verbatim>\<open>A\<close>
  up to its first hyphen (all of it when there is none) and whose end is the text between
  the first hyphen and the second one (up to the end of the token when there is no
  second hyphen), and is absent when the token has no hyphen. No square is checked: the
  statement holds for every token.
\<close>

theorem token_annotations:
  "(startsWith tok (js ''H'') \<longrightarrow>
      annotationLoop (tok # toks) anns = annotationLoop toks (anns @ [Highlight (drop 1 tok)]))
   \<and> (startsWith tok (js ''A'') \<longrightarrow>
        annotationLoop (tok # toks) anns =
          annotationLoop toks
            (anns @ [Arrow (Some (beforeFirst HYPHEN (drop 1 tok)))
                       (if HYPHEN \<in> set (drop 1 tok)
                        then Some (beforeFirst HYPHEN (afterFirst HYPHEN (drop 1 tok)))
                        else None)]))
   \<and> (startsWith line (js ''annotations: '') \<longrightarrow>
        lineBody line (anns, ori) =
          Inr (annotationLoop (splitOn SP (drop 13 line)) anns, ori))"
proof -
  have A_not_H: "startsWith tok (js ''A'') \<Longrightarrow> \<not> startsWith tok (js ''H'')"
    by (cases tok) (auto simp: startsWith_def js_def)
  have h: "startsWith tok (js ''H'') \<longrightarrow>
      annotationLoop (tok # toks) anns = annotationLoop toks (anns @ [Highlight (drop 1 tok)])"
    by (simp add: substring_def)
  have a: "startsWith tok (js ''A'') \<longrightarrow>
        annotationLoop (tok # toks) anns =
          annotationLoop toks
            (anns @ [Arrow (Some (beforeFirst HYPHEN (drop 1 tok)))
                       (if HYPHEN \<in> set (drop 1 tok)
                        then Some (beforeFirst HYPHEN (afterFirst HYPHEN (drop 1 tok)))
                        else None)])"
    using A_not_H
    by (simp add: substring_def Let_def at_index_splitOn_0 at_index_splitOn_1)
  have l: "startsWith line (js ''annotations: '') \<longrightarrow>
        lineBody line (anns, ori) =
          Inr (annotationLoop (splitOn SP (drop 13 line)) anns, ori)"
    by (simp add: lineBody_annotations lineAnnotations_def annotationLoop_tokens)
  from h a l show ?thesis by blast
qed

theorem token_annotations_witness:
  "annotationLoop [js ''He4''] [] = [Highlight (js ''e4'')]
   \<and> annotationLoop [js ''Aa-b-c''] [] = [Arrow (Some (js ''a'')) (Some (js ''b''))]
   \<and> annotationLoop [js ''Ae2''] [] = [Arrow (Some (js ''e2'')) None]
   \<and> lineBody (js ''annotations: He4'') ([], js ''white'') = Inr ([Highlight (js ''e4'')], js ''white'')"
proof -
  have h: "startsWith (js ''He4'') (js ''H'')" by (simp add: startsWith_def js_def)
  have a1: "startsWith (js ''Aa-b-c'') (js ''A'')" by (simp add: startsWith_def js_def)
  have a2: "startsWith (js ''Ae2'') (js ''A'')" by (simp add: startsWith_def js_def)
  have l: "startsWith (js ''annotations: He4'') (js ''annotations: '')"
    by (simp add: startsWith_def js_def)
  have s: "splitOn SP (drop 13 (js ''annotations: He4'')) = [js ''He4'']"
    by (simp add: js_def)
  from h l token_annotations [of "js ''He4''" "[]" "[]" "js ''annotations: He4''" "js ''white''"]
  have 1: "annotationLoop [js ''He4''] [] = [Highlight (js ''e4'')]
     \<and> lineBody (js ''annotations: He4'') ([], js ''white'') = Inr ([Highlight (js ''e4'')], js ''white'')"
    by (simp add: s) (simp add: js_def)
  from a1 token_annotations [of "js ''Aa-b-c''" "[]" "[]" "[]" "[]"]
  have 2: "annotationLoop [js ''Aa-b-c''] [] = [Arrow (Some (js ''a'')) (Some (js ''b''))]"
    by (simp add: beforeFirst_def afterFirst_def) (simp add: js_def)
  from a2 token_annotations [of "js ''Ae2''" "[]" "[]" "[]" "[]"]
  have 3: "annotationLoop [js ''Ae2''] [] = [Arrow (Some (js ''e2'')) None]"
    by (simp add: beforeFirst_def afterFirst_def) (simp add: js_def)
  from 1 2 3 show ?thesis by blast
qed

text \<open>
  C3 as stated takes the end of an arrow to be all the text after the first hyphen. For
  the token \<^verbatim>\<open>Aa-b-c\<close> that text is \<^verbatim>\<open>b-c\<close>, but the parsed arrow ends at \<^verbatim>\<open>b\<close>:
  the split is at every hyphen and only the first two pieces are kept.
\<close>

theorem arrow_end_counterexample:
  "parseCode (js ''8/8/8/8/8/8/8/8\<newline>annotations: Aa-b-c'')
     = Inr \<lparr>fen = js ''8/8/8/8/8/8/8/8'',
            annotations = [Arrow (Some (js ''a'')) (Some (js ''b''))],
            orientation = js ''white''\<rparr>
   \<and> afterFirst HYPHEN (js ''a-b-c'') = js ''b-c''
   \<and> js ''b'' \<noteq> js ''b-c''"
  by (simp add: parseCode_def lineBody.simps js_def startsWith_def trim_def isWhiteSpace_def
        substring_def at_index_def afterFirst_def)

text \<open>
  C4 (as amended). The line \<^verbatim>\<open>annotations: He4 Ae2-e4 Xz9\<close> adds, in every state of
  the loop and without error, exactly a Highlight of \<^verbatim>\<open>e4\<close> followed by an Arrow from
  \<^verbatim>\<open>e2\<close> to \<^verbatim>\<open>e4\<close>; the token \<^verbatim>\<open>Xz9\<close> adds nothing. For every input that has
  this line among its directive lines, \<open>parseCode\<close> raises an error exactly when one of
  the other directive lines is an orientation line with an invalid value; when none is,
  it returns a result whose annotations are those of the lines before, then these two,
  then those of the lines after.
\<close>

theorem annotations_He4_Ae2e4_Xz9:
  "lineBody (js ''annotations: He4 Ae2-e4 Xz9'') (anns, ori)
     = Inr (anns @ [Highlight (js ''e4''), Arrow (Some (js ''e2'')) (Some (js ''e4''))], ori)
   \<and> (drop 1 (splitLines input) = pre @ js ''annotations: He4 Ae2-e4 Xz9'' # post \<longrightarrow>
        ((\<exists>e. parseCode input = Inl e) \<longleftrightarrow> (\<exists>l \<in> set (pre @ post). invalidOrientation l))
        \<and> ((\<forall>l \<in> set (pre @ post). \<not> invalidOrientation l) \<longrightarrow>
              (\<exists>r. parseCode input = Inr r
                 \<and> annotations r =
                     concat (map lineAnnotations pre)
                     @ [Highlight (js ''e4''), Arrow (Some (js ''e2'')) (Some (js ''e4''))]
                     @ concat (map lineAnnotations post)))
        \<and> (\<forall>r. parseCode input = Inr r \<longrightarrow>
              annotations r =
                concat (map lineAnnotations pre)
                @ [Highlight (js ''e4''), Arrow (Some (js ''e2'')) (Some (js ''e4''))]
                @ concat (map lineAnnotations post)))"
proof -
  let ?line = "js ''annotations: He4 Ae2-e4 Xz9''"
  have body: "lineBody ?line (anns, ori)
     = Inr (anns @ [Highlight (js ''e4''), Arrow (Some (js ''e2'')) (Some (js ''e4''))], ori)"
    using lineBody_annotations [OF the_line_startsWith, of anns ori]
    by (simp add: the_line_annotations)
  have whole: "(\<exists>e. parseCode input = Inl e) \<longleftrightarrow> (\<exists>l \<in> set (pre @ post). invalidOrientation l)"
    and returns: "(\<forall>l \<in> set (pre @ post). \<not> invalidOrientation l) \<longrightarrow>
              (\<exists>r. parseCode input = Inr r
                 \<and> annotations r =
                     concat (map lineAnnotations pre)
                     @ [Highlight (js ''e4''), Arrow (Some (js ''e2'')) (Some (js ''e4''))]
                     @ concat (map lineAnnotations post))"
    and anns: "\<forall>r. parseCode input = Inr r \<longrightarrow>
              annotations r =
                concat (map lineAnnotations pre)
                @ [Highlight (js ''e4''), Arrow (Some (js ''e2'')) (Some (js ''e4''))]
                @ concat (map lineAnnotations post)"
    if rest: "drop 1 (splitLines input) = pre @ ?line # post"
  proof -
    obtain line0 where sl: "splitLines input = line0 # pre @ ?line # post"
      using rest splitLines_not_Nil [of input] by (cases "splitLines input") auto
    show "(\<forall>l \<in> set (pre @ post). \<not> invalidOrientation l) \<longrightarrow>
              (\<exists>r. parseCode input = Inr r
                 \<and> annotations r =
                     concat (map lineAnnotations pre)
                     @ [Highlight (js ''e4''), Arrow (Some (js ''e2'')) (Some (js ''e4''))]
                     @ concat (map lineAnnotations post))"
    proof
      assume "\<forall>l \<in> set (pre @ post). \<not> invalidOrientation l"
      with the_line_not_invalid
      have "\<forall>l \<in> set (pre @ ?line # post). \<not> invalidOrientation l" by auto
      from parseCode_no_invalid [OF sl this]
      show "\<exists>r. parseCode input = Inr r
                 \<and> annotations r =
                     concat (map lineAnnotations pre)
                     @ [Highlight (js ''e4''), Arrow (Some (js ''e2'')) (Some (js ''e4''))]
                     @ concat (map lineAnnotations post)"
        by (simp add: the_line_annotations)
    qed
    show "(\<exists>e. parseCode input = Inl e) \<longleftrightarrow> (\<exists>l \<in> set (pre @ post). invalidOrientation l)"
      using parseCode_error_iff_lines [OF sl] the_line_not_invalid by auto
    show "\<forall>r. parseCode input = Inr r \<longrightarrow>
              annotations r =
                concat (map lineAnnotations pre)
                @ [Highlight (js ''e4''), Arrow (Some (js ''e2'')) (Some (js ''e4''))]
                @ concat (map lineAnnotations post)"
    proof (intro allI impI)
      fix r assume ok: "parseCode input = Inr r"
      have "\<forall>l \<in> set (pre @ ?line # post). \<not> invalidOrientation l"
      proof (rule ccontr)
        assume "\<not> (\<forall>l \<in> set (pre @ ?line # post). \<not> invalidOrientation l)"
        then have "\<exists>l \<in> set (pre @ ?line # post). invalidOrientation l" by blast
        with parseCode_error_iff_lines [OF sl] ok show False by simp
      qed
      from parseCode_no_invalid [OF sl this] ok show "annotations r =
                concat (map lineAnnotations pre)
                @ [Highlight (js ''e4''), Arrow (Some (js ''e2'')) (Some (js ''e4''))]
                @ concat (map lineAnnotations post)"
        by (auto simp: the_line_annotations)
    qed
  qed
  from body whole returns anns show ?thesis by blast
qed

theorem annotations_He4_Ae2e4_Xz9_witness:
  "\<exists>r. parseCode (js ''8/8/8/8/8/8/8/8\<newline>annotations: He4 Ae2-e4 Xz9'') = Inr r
      \<and> annotations r = [Highlight (js ''e4''), Arrow (Some (js ''e2'')) (Some (js ''e4''))]"
proof -
  let ?input = "js ''8/8/8/8/8/8/8/8\<newline>annotations: He4 Ae2-e4 Xz9''"
  have rest: "drop 1 (splitLines ?input) = [] @ js ''annotations: He4 Ae2-e4 Xz9'' # []"
    by (simp add: js_def)
  have others: "\<forall>l \<in> set ([] @ []). \<not> invalidOrientation l" by simp
  from rest others annotations_He4_Ae2e4_Xz9 [of "[]" "js ''white''" ?input "[]" "[]"]
  show ?thesis by simp
qed

text \<open>
  C4 as stated promises the two annotations and no error for any input that holds the
  line. The input below holds it, followed by an orientation line with the value
  \<^verbatim>\<open>purple\<close>: \<open>parseCode\<close> raises the error and returns no annotations.
\<close>

theorem annotations_line_with_invalid_orientation_counterexample:
  "drop 1 (splitLines (js ''8/8\<newline>annotations: He4 Ae2-e4 Xz9\<newline>orientation: purple''))
     = [js ''annotations: He4 Ae2-e4 Xz9'', js ''orientation: purple'']
   \<and> parseCode (js ''8/8\<newline>annotations: He4 Ae2-e4 Xz9\<newline>orientation: purple'')
       = Inl (Error (js ''Unknown orientation white''))"
  by (simp add: parseCode_def lineBody.simps js_def startsWith_def trim_def isWhiteSpace_def
        substring_def at_index_def Let_def)

text \<open>
  C5. The fen of the result is the first line of the input, without the prefix
  \<^verbatim>\<open>fen: \<close> when the line starts with it and verbatim otherwise. The first line is the
  input up to its first LF (less the CR of a CR LF). It is never read as a directive: an
  input of one line parses without error to no annotations and orientation white
  whatever the line says, and two inputs with the same lines after the first have the
  same error or the same annotations and orientation.
\<close>

theorem fen_from_first_line:
  "(splitLines input = line0 # rest \<and> parseCode input = Inr r \<longrightarrow>
      fen r = (if startsWith line0 (js ''fen: '') then drop 5 line0 else line0))
   \<and> (LF \<notin> set line \<longrightarrow>
        parseCode line = Inr \<lparr>fen = fenOf line, annotations = [], orientation = js ''white''\<rparr>
        \<and> (\<forall>r'. parseCode (line @ LF # following) = Inr r' \<longrightarrow> fen r' = fenOf (stripCR line)))
   \<and> (drop 1 (splitLines a) = drop 1 (splitLines b) \<longrightarrow>
        map_sum id (\<lambda>r. (annotations r, orientation r)) (parseCode a)
          = map_sum id (\<lambda>r. (annotations r, orientation r)) (parseCode b))"
proof -
  have 1: "splitLines input = line0 # rest \<and> parseCode input = Inr r \<longrightarrow>
      fen r = (if startsWith line0 (js ''fen: '') then drop 5 line0 else line0)"
    using parseCode_fen [of input line0 rest r] by (simp add: fenOf_def)
  have 2: "LF \<notin> set line \<longrightarrow>
        parseCode line = Inr \<lparr>fen = fenOf line, annotations = [], orientation = js ''white''\<rparr>
        \<and> (\<forall>r'. parseCode (line @ LF # following) = Inr r' \<longrightarrow> fen r' = fenOf (stripCR line))"
    using parseCode_single_line [of line]
      parseCode_fen [of "line @ LF # following" "stripCR line" "splitLines following"]
    by (simp add: splitLines_LF)
  have 3: "drop 1 (splitLines a) = drop 1 (splitLines b) \<longrightarrow>
        map_sum id (\<lambda>r. (annotations r, orientation r)) (parseCode a)
          = map_sum id (\<lambda>r. (annotations r, orientation r)) (parseCode b)"
    using parseCode_directives_only [of a b] by blast
  from 1 2 3 show ?thesis by blast
qed

theorem fen_from_first_line_witness:
  "(\<exists>r. parseCode (js ''fen: 8/8\<newline>orientation: black'') = Inr r \<and> fen r = js ''8/8'')
   \<and> parseCode (js ''orientation: purple'')
       = Inr \<lparr>fen = js ''orientation: purple'', annotations = [], orientation = js ''white''\<rparr>
   \<and> (\<exists>r'. parseCode (js ''8/8'' @ LF # js ''annotations: He4'') = Inr r' \<and> fen r' = js ''8/8'')
   \<and> map_sum id (\<lambda>r. (annotations r, orientation r))
         (parseCode (js ''annotations: Ha1\<newline>orientation: black''))
       = map_sum id (\<lambda>r. (annotations r, orientation r))
         (parseCode (js ''fen: 8/8\<newline>orientation: black''))"
proof -
  let ?i1 = "js ''fen: 8/8\<newline>orientation: black''"
  let ?i2 = "js ''annotations: Ha1\<newline>orientation: black''"
  have p1: "parseCode ?i1
      = Inr \<lparr>fen = js ''8/8'', annotations = [], orientation = js ''black''\<rparr>"
    by code_simp
  have p3: "parseCode (js ''8/8'' @ LF # js ''annotations: He4'')
      = Inr \<lparr>fen = js ''8/8'', annotations = [Highlight (js ''e4'')], orientation = js ''white''\<rparr>"
    by (simp add: parseCode_def lineBody.simps js_def startsWith_def trim_def isWhiteSpace_def
          substring_def Let_def)
  have s1: "splitLines ?i1 = js ''fen: 8/8'' # [js ''orientation: black'']"
    by (simp add: js_def)
  have nl: "LF \<notin> set (js ''orientation: purple'')" "LF \<notin> set (js ''8/8'')"
    by (simp_all add: js_def)
  have same: "drop 1 (splitLines ?i2) = drop 1 (splitLines ?i1)"
    by (simp add: js_def)
  have f1: "(if startsWith (js ''fen: 8/8'') (js ''fen: '') then drop 5 (js ''fen: 8/8'')
             else js ''fen: 8/8'') = js ''8/8''"
    by (simp add: startsWith_def js_def)
  have f2: "fenOf (js ''orientation: purple'') = js ''orientation: purple''"
    "fenOf (stripCR (js ''8/8'')) = js ''8/8''"
    by (simp_all add: fenOf_def stripCR_def startsWith_def js_def)
  note a = fen_from_first_line [of ?i1 "js ''fen: 8/8''" "[js ''orientation: black'']"
      "\<lparr>fen = js ''8/8'', annotations = [], orientation = js ''black''\<rparr>"
      "js ''orientation: purple''" "[]" ?i2 ?i1]
  note b = fen_from_first_line [of ?i1 "js ''fen: 8/8''" "[js ''orientation: black'']"
      "\<lparr>fen = js ''8/8'', annotations = [], orientation = js ''black''\<rparr>"
      "js ''8/8''" "js ''annotations: He4''" ?i2 ?i1]
  from a s1 p1 f1 have 1: "\<exists>r. parseCode ?i1 = Inr r \<and> fen r = js ''8/8''" by simp
  from a nl f2 have 2: "parseCode (js ''orientation: purple'')
       = Inr \<lparr>fen = js ''orientation: purple'', annotations = [], orientation = js ''white''\<rparr>"
    by simp
  from b nl f2 p3
  have 3: "\<exists>r'. parseCode (js ''8/8'' @ LF # js ''annotations: He4'') = Inr r' \<and> fen r' = js ''8/8''"
    by simp
  from a same have 4: "map_sum id (\<lambda>r. (annotations r, orientation r)) (parseCode ?i2)
       = map_sum id (\<lambda>r. (annotations r, orientation r)) (parseCode ?i1)" by blast
  from 1 2 3 4 show ?thesis by blast
qed

text \<open>
  C6. With no orientation line after the first line, \<open>parseCode\<close> returns orientation
  \<^verbatim>\<open>white\<close>. When the orientation lines are all valid, the orientation returned is the
  value of the last of them. The starting position on a single line gives orientation
  \<^verbatim>\<open>white\<close>, no annotations, and that line as the fen.
\<close>

theorem orientation_default_and_last:
  "((\<forall>l \<in> set (drop 1 (splitLines input)). \<not> startsWith l (js ''orientation: '')) \<longrightarrow>
      (\<exists>r. parseCode input = Inr r \<and> orientation r = js ''white''))
   \<and> (drop 1 (splitLines input) = pre @ l # post
        \<and> (\<forall>l' \<in> set (pre @ l # post). \<not> invalidOrientation l')
        \<and> startsWith l (js ''orientation: '')
        \<and> (\<forall>l' \<in> set post. \<not> startsWith l' (js ''orientation: '')) \<longrightarrow>
        (\<exists>r. parseCode input = Inr r \<and> orientation r = orientationValue l))
   \<and> parseCode (js ''rnbqkbnr/pppppppp/8/8/8/8/PPPPPPPP/RNBQKBNR'')
       = Inr \<lparr>fen = js ''rnbqkbnr/pppppppp/8/8/8/8/PPPPPPPP/RNBQKBNR'',
              annotations = [], orientation = js ''white''\<rparr>"
proof -
  obtain line0 rest where sl: "splitLines input = line0 # rest"
    using splitLines_obtain by blast
  have 1: "(\<forall>l \<in> set (drop 1 (splitLines input)). \<not> startsWith l (js ''orientation: '')) \<longrightarrow>
      (\<exists>r. parseCode input = Inr r \<and> orientation r = js ''white'')"
  proof
    assume none: "\<forall>l \<in> set (drop 1 (splitLines input)). \<not> startsWith l (js ''orientation: '')"
    then have "\<forall>l \<in> set rest. \<not> invalidOrientation l"
      by (simp add: sl not_orientation_not_invalid)
    from parseCode_no_invalid [OF sl this] none
    show "\<exists>r. parseCode input = Inr r \<and> orientation r = js ''white''"
      by (simp add: sl orientationAfter_no_line)
  qed
  have 2: "drop 1 (splitLines input) = pre @ l # post
        \<and> (\<forall>l' \<in> set (pre @ l # post). \<not> invalidOrientation l')
        \<and> startsWith l (js ''orientation: '')
        \<and> (\<forall>l' \<in> set post. \<not> startsWith l' (js ''orientation: '')) \<longrightarrow>
        (\<exists>r. parseCode input = Inr r \<and> orientation r = orientationValue l)"
  proof
    assume h: "drop 1 (splitLines input) = pre @ l # post
        \<and> (\<forall>l' \<in> set (pre @ l # post). \<not> invalidOrientation l')
        \<and> startsWith l (js ''orientation: '')
        \<and> (\<forall>l' \<in> set post. \<not> startsWith l' (js ''orientation: ''))"
    then have rest: "rest = pre @ l # post" by (simp add: sl)
    from h have valid: "\<forall>l' \<in> set rest. \<not> invalidOrientation l'"
      unfolding rest by blast
    from h have "orientationAfter (js ''white'') rest = orientationValue l"
      unfolding rest by (blast intro: orientationAfter_last)
    with parseCode_no_invalid [OF sl valid]
    show "\<exists>r. parseCode input = Inr r \<and> orientation r = orientationValue l" by simp
  qed
  have 3: "parseCode (js ''rnbqkbnr/pppppppp/8/8/8/8/PPPPPPPP/RNBQKBNR'')
       = Inr \<lparr>fen = js ''rnbqkbnr/pppppppp/8/8/8/8/PPPPPPPP/RNBQKBNR'',
              annotations = [], orientation = js ''white''\<rparr>"
    by (simp add: parseCode_def js_def startsWith_def)
  from 1 2 3 show ?thesis by blast
qed

theorem orientation_default_and_last_witness:
  "(\<exists>r. parseCode (js ''8/8\<newline>annotations: He4'') = Inr r \<and> orientation r = js ''white'')
   \<and> (\<exists>r. parseCode (js ''8/8\<newline>orientation: black\<newline>orientation:  white \<newline>a note'') = Inr r
          \<and> orientation r = js ''white'')
   \<and> (\<exists>r. parseCode (js ''8/8\<newline>orientation: white\<newline>orientation: black'') = Inr r
          \<and> orientation r = js ''black'')"
proof -
  let ?i1 = "js ''8/8\<newline>annotations: He4''"
  let ?i2 = "js ''8/8\<newline>orientation: black\<newline>orientation:  white \<newline>a note''"
  let ?i3 = "js ''8/8\<newline>orientation: white\<newline>orientation: black''"
  have none: "\<forall>l \<in> set (drop 1 (splitLines ?i1)). \<not> startsWith l (js ''orientation: '')"
    by (simp add: js_def startsWith_def)
  have s2: "drop 1 (splitLines ?i2)
      = [js ''orientation: black''] @ js ''orientation:  white '' # [js ''a note'']"
    by (simp add: js_def)
  have s3: "drop 1 (splitLines ?i3) = [js ''orientation: white''] @ js ''orientation: black'' # []"
    by (simp add: js_def)
  have v2: "\<forall>l' \<in> set ([js ''orientation: black''] @ js ''orientation:  white '' # [js ''a note'']).
              \<not> invalidOrientation l'"
    by (simp add: invalidOrientation_def orientationValue_def js_def startsWith_def trim_def
          isWhiteSpace_def)
  have v3: "\<forall>l' \<in> set ([js ''orientation: white''] @ js ''orientation: black'' # []).
              \<not> invalidOrientation l'"
    by (simp add: invalidOrientation_def orientationValue_def js_def startsWith_def trim_def
          isWhiteSpace_def)
  have o2: "startsWith (js ''orientation:  white '') (js ''orientation: '')"
    "\<forall>l' \<in> set [js ''a note'']. \<not> startsWith l' (js ''orientation: '')"
    "orientationValue (js ''orientation:  white '') = js ''white''"
    by (simp_all add: orientationValue_def js_def startsWith_def trim_def isWhiteSpace_def)
  have o3: "startsWith (js ''orientation: black'') (js ''orientation: '')"
    "\<forall>l' \<in> set []. \<not> startsWith l' (js ''orientation: '')"
    "orientationValue (js ''orientation: black'') = js ''black''"
    by (simp_all add: orientationValue_def js_def startsWith_def trim_def isWhiteSpace_def)
  from none orientation_default_and_last [of ?i1 "[]" "[]" "[]"]
  have 1: "\<exists>r. parseCode ?i1 = Inr r \<and> orientation r = js ''white''" by blast
  from s2 v2 o2
    orientation_default_and_last [of ?i2 "[js ''orientation: black'']" "js ''orientation:  white ''"
      "[js ''a note'']"]
  have 2: "\<exists>r. parseCode ?i2 = Inr r \<and> orientation r = js ''white''" by simp
  from s3 v3 o3
    orientation_default_and_last [of ?i3 "[js ''orientation: white'']" "js ''orientation: black''" "[]"]
  have 3: "\<exists>r. parseCode ?i3 = Inr r \<and> orientation r = js ''black''" by simp
  from 1 2 3 show ?thesis by blast
qed

text \<open>
  C7. The annotations of the result are those of the directive lines in the order of the
  lines, and within an annotations line those of its tokens from left to right, each
  token giving at most one; the loop over the tokens of a line processes a list of
  tokens as its first part followed by its second part. For the tokens
  \<^verbatim>\<open>He4 Ae2-e4\<close> the Highlight comes first and the Arrow second.
\<close>

theorem annotations_in_encounter_order:
  "(parseCode input = Inr r \<longrightarrow>
      annotations r = concat (map lineAnnotations (drop 1 (splitLines input))))
   \<and> lineAnnotations (js ''annotations: '' @ rest)
        = concat (map tokenAnnotation (splitOn SP rest))
   \<and> length (tokenAnnotation tok) \<le> 1
   \<and> annotationLoop (ts1 @ ts2) anns = annotationLoop ts2 (annotationLoop ts1 anns)
   \<and> parseCode (js ''8/8/8/8/8/8/8/8\<newline>annotations: He4 Ae2-e4'')
       = Inr \<lparr>fen = js ''8/8/8/8/8/8/8/8'',
              annotations = [Highlight (js ''e4''), Arrow (Some (js ''e2'')) (Some (js ''e4''))],
              orientation = js ''white''\<rparr>"
proof -
  have ex: "parseCode (js ''8/8/8/8/8/8/8/8\<newline>annotations: He4 Ae2-e4'')
       = Inr \<lparr>fen = js ''8/8/8/8/8/8/8/8'',
              annotations = [Highlight (js ''e4''), Arrow (Some (js ''e2'')) (Some (js ''e4''))],
              orientation = js ''white''\<rparr>"
    by (simp add: parseCode_def lineBody.simps js_def startsWith_def trim_def isWhiteSpace_def
          substring_def at_index_def Let_def)
  from parseCode_annotations [of input r] lineAnnotations_prefixed [of rest]
    length_tokenAnnotation [of tok] annotationLoop_append [of ts1 ts2 anns] ex
  show ?thesis by blast
qed

theorem annotations_in_encounter_order_witness:
  "\<exists>r. parseCode (js ''8/8\<newline>annotations: Ae2-e4 Xz9\<newline>orientation: black\<newline>annotations: He4 Hd5'')
         = Inr r
      \<and> annotations r
          = [Arrow (Some (js ''e2'')) (Some (js ''e4'')), Highlight (js ''e4''), Highlight (js ''d5'')]"
proof -
  let ?i = "js ''8/8\<newline>annotations: Ae2-e4 Xz9\<newline>orientation: black\<newline>annotations: He4 Hd5''"
  let ?r = "\<lparr>fen = js ''8/8'',
      annotations = [Arrow (Some (js ''e2'')) (Some (js ''e4'')), Highlight (js ''e4''),
                     Highlight (js ''d5'')],
      orientation = js ''black''\<rparr>"
  have p: "parseCode ?i = Inr ?r"
    by (simp add: parseCode_def lineBody.simps js_def startsWith_def trim_def isWhiteSpace_def
          substring_def at_index_def Let_def)
  have c: "concat (map lineAnnotations (drop 1 (splitLines ?i)))
      = [Arrow (Some (js ''e2'')) (Some (js ''e4'')), Highlight (js ''e4''), Highlight (js ''d5'')]"
    by (simp add: lineAnnotations_def tokenAnnotation_def arrowEnd_def beforeFirst_def
          afterFirst_def js_def startsWith_def)
  from p annotations_in_encounter_order [of ?i ?r "[]" "[]" "[]" "[]" "[]"]
  have "annotations ?r = concat (map lineAnnotations (drop 1 (splitLines ?i)))" by blast
  with p c show ?thesis by simp
qed

text \<open>
  C8. When \<^verbatim>\<open>loadData\<close> yields nothing, the settings are exactly the defaults:
  white squares \<^verbatim>\<open>#f0d9b5\<close>, black squares \<^verbatim>\<open>#b58862\<close>, board width 320.
\<close>

theorem onload_defaults:
  "onload None =
     \<lparr>whiteSquareColor = js ''#f0d9b5'', blackSquareColor = js ''#b58862'',
      boardWidthPx = 320, setting_orientation = None\<rparr>"
  by (simp add: onload_def)

text \<open>
  C9. A token that starts with \<^verbatim>\<open>A\<close> and has no hyphen yields, without failure, an
  Arrow whose start is the whole text after the \<^verbatim>\<open>A\<close> and whose end is absent; an
  input whose only directive line holds just such a token parses to that single arrow.
\<close>

theorem arrow_without_hyphen:
  "(startsWith tok (js ''A'') \<and> HYPHEN \<notin> set tok \<longrightarrow>
      annotationLoop (tok # toks) anns =
        annotationLoop toks (anns @ [Arrow (Some (drop 1 tok)) None]))
   \<and> (startsWith tok (js ''A'') \<and> HYPHEN \<notin> set tok \<and> SP \<notin> set tok \<and> LF \<notin> set tok
        \<and> LF \<notin> set line0 \<longrightarrow>
        parseCode (line0 @ LF # js ''annotations: '' @ tok) =
          Inr \<lparr>fen = fenOf (stripCR line0),
               annotations = [Arrow (Some (drop 1 tok)) None],
               orientation = js ''white''\<rparr>)"
proof -
  have tokA: "tokenAnnotation tok = [Arrow (Some (drop 1 tok)) None]"
    if "startsWith tok (js ''A'')" "HYPHEN \<notin> set tok"
  proof -
    from that(1) have "\<not> startsWith tok (js ''H'')"
      by (cases tok) (auto simp: startsWith_def js_def)
    moreover from that(2) have "HYPHEN \<notin> set (drop 1 tok)"
      by (auto dest: in_set_dropD)
    ultimately show ?thesis
      using that(1) by (simp add: tokenAnnotation_def arrowEnd_def beforeFirst_no_sep)
  qed
  have 1: "startsWith tok (js ''A'') \<and> HYPHEN \<notin> set tok \<longrightarrow>
      annotationLoop (tok # toks) anns =
        annotationLoop toks (anns @ [Arrow (Some (drop 1 tok)) None])"
    using tokA by (simp add: annotationLoop_tokens)
  have 2: "startsWith tok (js ''A'') \<and> HYPHEN \<notin> set tok \<and> SP \<notin> set tok \<and> LF \<notin> set tok
        \<and> LF \<notin> set line0 \<longrightarrow>
        parseCode (line0 @ LF # js ''annotations: '' @ tok) =
          Inr \<lparr>fen = fenOf (stripCR line0),
               annotations = [Arrow (Some (drop 1 tok)) None],
               orientation = js ''white''\<rparr>"
  proof
    assume h: "startsWith tok (js ''A'') \<and> HYPHEN \<notin> set tok \<and> SP \<notin> set tok \<and> LF \<notin> set tok
        \<and> LF \<notin> set line0"
    let ?line = "js ''annotations: '' @ tok"
    from h have "LF \<notin> set ?line" by (simp add: js_def)
    with h have sl: "splitLines (line0 @ LF # ?line) = stripCR line0 # [?line]"
      by (simp add: splitLines_LF splitLines_no_LF)
    have sw: "startsWith ?line (js ''annotations: '')" by (simp add: startsWith_def)
    then have valid: "\<forall>l \<in> set [?line]. \<not> invalidOrientation l"
      using prefixes_exclusive [of ?line] by (auto simp: invalidOrientation_def)
    have "\<not> startsWith ?line (js ''orientation: '')"
      using prefixes_exclusive [of ?line] sw by blast
    then have ori: "orientationAfter (js ''white'') [?line] = js ''white''"
      by (simp add: orientationAfter_no_line)
    from h have la: "lineAnnotations ?line = [Arrow (Some (drop 1 tok)) None]"
      by (simp add: lineAnnotations_prefixed splitOn_no_sep tokA)
    from parseCode_no_invalid [OF sl valid] ori la
    show "parseCode (line0 @ LF # ?line) =
          Inr \<lparr>fen = fenOf (stripCR line0),
               annotations = [Arrow (Some (drop 1 tok)) None],
               orientation = js ''white''\<rparr>" by simp
  qed
  from 1 2 show ?thesis by blast
qed

theorem arrow_without_hyphen_witness:
  "annotationLoop [js ''Ae2e4''] [] = [Arrow (Some (js ''e2e4'')) None]
   \<and> parseCode (js ''fen: 8/8'' @ LF # js ''annotations: '' @ js ''Ae2e4'') =
       Inr \<lparr>fen = js ''8/8'', annotations = [Arrow (Some (js ''e2e4'')) None],
            orientation = js ''white''\<rparr>"
proof -
  have h: "startsWith (js ''Ae2e4'') (js ''A'')" "HYPHEN \<notin> set (js ''Ae2e4'')"
    "SP \<notin> set (js ''Ae2e4'')" "LF \<notin> set (js ''Ae2e4'')" "LF \<notin> set (js ''fen: 8/8'')"
    by (simp_all add: startsWith_def js_def)
  have e: "drop 1 (js ''Ae2e4'') = js ''e2e4''" "fenOf (stripCR (js ''fen: 8/8'')) = js ''8/8''"
    by (simp_all add: fenOf_def stripCR_def startsWith_def js_def)
  from h e arrow_without_hyphen [of "js ''Ae2e4''" "[]" "[]" "js ''fen: 8/8''"]
  show ?thesis by simp
qed

end
